theory Spec2Isabelle
  imports Main
begin

section \<open>Python values and failures\<close>

text \<open>
  The exceptions the game code can raise: a list index out of range, a missing dictionary
  key, and the modulus by zero of \<^verbatim>\<open>Tetromino.rotate\<close>. A function of the
  model returns \<open>Inl e\<close> where the Python raises \<open>e\<close>.
\<close>

datatype error = IndexError | KeyError | ZeroDivisionError

text \<open>
  Python list indexing \<^verbatim>\<open>xs[i]\<close>: a negative index counts from the end, anything
  outside \<open>-len \<le> i < len\<close> raises \<^verbatim>\<open>IndexError\<close>.
\<close>

definition py_index :: "'a list \<Rightarrow> int \<Rightarrow> nat option" where
  "py_index xs i =
     (if 0 \<le> i \<and> i < int (length xs) then Some (nat i)
      else if i < 0 \<and> - int (length xs) \<le> i then Some (nat (int (length xs) + i))
      else None)"

definition py_get :: "'a list \<Rightarrow> int \<Rightarrow> error + 'a" where
  "py_get xs i = (case py_index xs i of None \<Rightarrow> Inl IndexError | Some j \<Rightarrow> Inr (xs ! j))"

text \<open>Item assignment \<^verbatim>\<open>xs[i] = v\<close>.\<close>

definition py_set :: "'a list \<Rightarrow> int \<Rightarrow> 'a \<Rightarrow> error + 'a list" where
  "py_set xs i v = (case py_index xs i of None \<Rightarrow> Inl IndexError | Some j \<Rightarrow> Inr (xs[j := v]))"

text \<open>
  A comprehension evaluates its elements from left to right; the first one that raises
  ends the evaluation.
\<close>

fun collect :: "(error + 'a) list \<Rightarrow> error + 'a list" where
  "collect [] = Inr []"
| "collect (r # rs) =
     (case r of
        Inl e \<Rightarrow> Inl e
      | Inr v \<Rightarrow> (case collect rs of Inl e \<Rightarrow> Inl e | Inr vs \<Rightarrow> Inr (v # vs)))"

section \<open>Game constants and the shape table\<close>

definition COLUMNS :: int where "COLUMNS = 10"
definition ROWS :: int where "ROWS = 20"

type_synonym color = "int \<times> int \<times> int"

definition CYAN :: color where "CYAN = (0, 255, 255)"
definition BLUE :: color where "BLUE = (0, 0, 255)"
definition ORANGE :: color where "ORANGE = (255, 165, 0)"
definition YELLOW :: color where "YELLOW = (255, 255, 0)"
definition GREEN :: color where "GREEN = (0, 255, 0)"
definition PURPLE :: color where "PURPLE = (128, 0, 128)"
definition RED :: color where "RED = (255, 0, 0)"

text \<open>
  The keys \<^verbatim>\<open>'I', 'O', 'T', 'L', 'J', 'S', 'Z'\<close> of the dictionaries
  \<^verbatim>\<open>SHAPES\<close> and \<^verbatim>\<open>COLORS\<close>.
\<close>

datatype kind = ShI | ShO | ShT | ShL | ShJ | ShS | ShZ

type_synonym matrix = "int list list"

fun SHAPES :: "kind \<Rightarrow> matrix" where
  "SHAPES ShI = [[1, 1, 1, 1]]"
| "SHAPES ShO = [[1, 1], [1, 1]]"
| "SHAPES ShT = [[0, 1, 0], [1, 1, 1]]"
| "SHAPES ShL = [[0, 0, 1], [1, 1, 1]]"
| "SHAPES ShJ = [[1, 0, 0], [1, 1, 1]]"
| "SHAPES ShS = [[0, 1, 1], [1, 1, 0]]"
| "SHAPES ShZ = [[1, 1, 0], [0, 1, 1]]"

fun COLORS :: "kind \<Rightarrow> color" where
  "COLORS ShI = CYAN"
| "COLORS ShO = YELLOW"
| "COLORS ShT = PURPLE"
| "COLORS ShL = ORANGE"
| "COLORS ShJ = BLUE"
| "COLORS ShS = GREEN"
| "COLORS ShZ = RED"

section \<open>Tetromino\<close>

text \<open>
  \<^verbatim>\<open>_rotate_matrix\<close>:
  \<^verbatim>\<open>[[shape[y][x] for y in range(len(shape)-1, -1, -1)] for x in range(len(shape[0]))]\<close>.
  \<^verbatim>\<open>shape[0]\<close> raises on the empty matrix, \<^verbatim>\<open>shape[y][x]\<close> on a row
  that is shorter than the first one.
\<close>

definition rotate_matrix :: "'a list list \<Rightarrow> error + 'a list list" where
  "rotate_matrix m =
     (case py_get m 0 of
        Inl e \<Rightarrow> Inl e
      | Inr row0 \<Rightarrow>
          collect (map (\<lambda>x. collect (map (\<lambda>y. case py_get m (int y) of
                                                  Inl e \<Rightarrow> Inl e
                                                | Inr r \<Rightarrow> py_get r (int x))
                                          (rev [0..<length m])))
                       [0..<length row0]))"

text \<open>
  \<^verbatim>\<open>_get_rotations\<close>: the loop \<^verbatim>\<open>for _ in range(3)\<close> appends the rotation of
  the last matrix to the list.
\<close>

fun rotations_loop :: "nat \<Rightarrow> 'a list list list \<Rightarrow> 'a list list \<Rightarrow> error + 'a list list list" where
  "rotations_loop 0 rotations last_rotation = Inr rotations"
| "rotations_loop (Suc n) rotations last_rotation =
     (case rotate_matrix last_rotation of
        Inl e \<Rightarrow> Inl e
      | Inr new_rotation \<Rightarrow> rotations_loop n (rotations @ [new_rotation]) new_rotation)"

definition get_rotations :: "'a list list \<Rightarrow> error + 'a list list list" where
  "get_rotations m = rotations_loop 3 [m] m"

record tetromino =
  piece_x :: int
  piece_y :: int
  shape :: kind
  color :: color
  rotation :: int
  shapes :: "matrix list"
  current_shape :: matrix

text \<open>The constructor \<^verbatim>\<open>Tetromino(x, y, shape)\<close>.\<close>

definition Tetromino :: "int \<Rightarrow> int \<Rightarrow> kind \<Rightarrow> error + tetromino" where
  "Tetromino x0 y0 k =
     (case get_rotations (SHAPES k) of
        Inl e \<Rightarrow> Inl e
      | Inr rs \<Rightarrow>
          (case py_get rs 0 of
             Inl e \<Rightarrow> Inl e
           | Inr cs \<Rightarrow>
               Inr \<lparr>piece_x = x0, piece_y = y0, shape = k, color = COLORS k, rotation = 0,
                    shapes = rs, current_shape = cs\<rparr>))"

text \<open>\<^verbatim>\<open>Tetromino.rotate\<close>: the next rotation index, modulo the number of states.\<close>

definition tetromino_rotate :: "tetromino \<Rightarrow> error + tetromino" where
  "tetromino_rotate p =
     (if length (shapes p) = 0 then Inl ZeroDivisionError
      else
        (let r = (rotation p + 1) mod int (length (shapes p))
         in case py_get (shapes p) r of
              Inl e \<Rightarrow> Inl e
            | Inr cs \<Rightarrow> Inr (p\<lparr>rotation := r, current_shape := cs\<rparr>)))"

section \<open>Tetris: the game controller\<close>

text \<open>
  A grid cell holds \<^verbatim>\<open>0\<close> (here \<open>None\<close>) or the colour of the piece locked
  there (\<open>Some c\<close>). A colour is a non-empty tuple, so it is true in a condition, and
  \<^verbatim>\<open>0\<close> is false.
\<close>

type_synonym cell = "color option"

definition truthy :: "cell \<Rightarrow> bool" where
  "truthy v = (v \<noteq> None)"

record tetris =
  grid :: "cell list list"
  current_piece :: tetromino
  next_piece :: tetromino
  score :: int
  level :: int
  fall_speed :: int
  last_fall :: int
  game_over :: bool

text \<open>
  \<^verbatim>\<open>new_piece\<close>: the argument is the key that \<^verbatim>\<open>random.choice\<close> returns.
\<close>

definition new_piece :: "kind \<Rightarrow> error + tetromino" where
  "new_piece k = Tetromino (COLUMNS div 2 - 2) 0 k"

text \<open>
  \<^verbatim>\<open>Tetris()\<close>: the two keys drawn for the current and the next piece, and the value
  of \<^verbatim>\<open>pygame.time.get_ticks()\<close>.
\<close>

definition Tetris :: "kind \<Rightarrow> kind \<Rightarrow> int \<Rightarrow> error + tetris" where
  "Tetris k1 k2 ticks =
     (case new_piece k1 of
        Inl e \<Rightarrow> Inl e
      | Inr p1 \<Rightarrow>
          (case new_piece k2 of
             Inl e \<Rightarrow> Inl e
           | Inr p2 \<Rightarrow>
               Inr \<lparr>grid = replicate (nat ROWS) (replicate (nat COLUMNS) None),
                    current_piece = p1, next_piece = p2, score = 0, level = 1,
                    fall_speed = 1000, last_fall = ticks, game_over = False\<rparr>))"

text \<open>
  The two nested loops of \<^verbatim>\<open>valid_move\<close> and \<^verbatim>\<open>lock_piece\<close> visit the cells
  of the matrix row by row, each row from left to right, and act on the cells whose
  entry is non-zero. \<open>shape_cells r m\<close> lists the (row, column) indices of these cells in
  the order of the visit, the first row of \<open>m\<close> having index \<open>r\<close>.
\<close>

fun row_cells :: "int \<Rightarrow> int \<Rightarrow> int list \<Rightarrow> (int \<times> int) list" where
  "row_cells r c [] = []"
| "row_cells r c (v # vs) = (if v \<noteq> 0 then [(r, c)] else []) @ row_cells r (c + 1) vs"

fun shape_cells :: "int \<Rightarrow> matrix \<Rightarrow> (int \<times> int) list" where
  "shape_cells r [] = []"
| "shape_cells r (row # rows) = row_cells r 0 row @ shape_cells (r + 1) rows"

definition occupied_cells :: "matrix \<Rightarrow> (int \<times> int) list" where
  "occupied_cells m = shape_cells 0 m"

text \<open>
  The body of the loops of \<^verbatim>\<open>valid_move\<close>, for a piece at \<open>(px, py)\<close> after the
  move: the first cell that is out of bounds or on a filled cell returns \<^verbatim>\<open>False\<close>.
  The grid is read only where \<open>new_y \<ge> 0\<close>.
\<close>

fun check_cells :: "cell list list \<Rightarrow> int \<Rightarrow> int \<Rightarrow> (int \<times> int) list \<Rightarrow> error + bool" where
  "check_cells g px py [] = Inr True"
| "check_cells g px py ((row, col) # rest) =
     (let new_x = px + col; new_y = py + row
      in if new_x < 0 \<or> new_x \<ge> COLUMNS \<or> new_y \<ge> ROWS then Inr False
         else if new_y \<ge> 0 then
           (case py_get g new_y of
              Inl e \<Rightarrow> Inl e
            | Inr line \<Rightarrow>
                (case py_get line new_x of
                   Inl e \<Rightarrow> Inl e
                 | Inr v \<Rightarrow> if truthy v then Inr False else check_cells g px py rest))
         else check_cells g px py rest)"

definition valid_move :: "tetris \<Rightarrow> tetromino \<Rightarrow> int \<Rightarrow> int \<Rightarrow> error + bool" where
  "valid_move s piece dx dy =
     check_cells (grid s) (piece_x piece + dx) (piece_y piece + dy)
       (occupied_cells (current_shape piece))"

text \<open>
  The loops of \<^verbatim>\<open>lock_piece\<close>. The result \<open>(True, s')\<close> is the early
  \<^verbatim>\<open>return\<close> after a cell above the grid, \<open>(False, s')\<close> the end of the loops.
  \<^verbatim>\<open>self.grid[y][x] = color\<close> reads the row \<open>y\<close> and assigns its item \<open>x\<close>.
\<close>

fun lock_cells :: "tetris \<Rightarrow> (int \<times> int) list \<Rightarrow> error + (bool \<times> tetris)" where
  "lock_cells s [] = Inr (False, s)"
| "lock_cells s ((row, col) # rest) =
     (let y = piece_y (current_piece s) + row; x = piece_x (current_piece s) + col
      in if y < 0 then Inr (True, s\<lparr>game_over := True\<rparr>)
         else
           (case py_index (grid s) y of
              None \<Rightarrow> Inl IndexError
            | Some j \<Rightarrow>
                (case py_set (grid s ! j) x (Some (color (current_piece s))) of
                   Inl e \<Rightarrow> Inl e
                 | Inr line \<Rightarrow> lock_cells (s\<lparr>grid := (grid s)[j := line]\<rparr>) rest)))"

text \<open>
  \<^verbatim>\<open>clear_lines\<close>: the loop over \<^verbatim>\<open>range(ROWS)\<close>, with the grid and the
  counter. \<^verbatim>\<open>del self.grid[row]\<close> removes the row, \<^verbatim>\<open>insert(0, ...)\<close> puts an
  empty one in front.
\<close>

fun clear_rows :: "nat list \<Rightarrow> cell list list \<Rightarrow> int \<Rightarrow> error + (cell list list \<times> int)" where
  "clear_rows [] g lines_cleared = Inr (g, lines_cleared)"
| "clear_rows (row # rows) g lines_cleared =
     (case py_get g (int row) of
        Inl e \<Rightarrow> Inl e
      | Inr line \<Rightarrow>
          if list_all truthy line
          then clear_rows rows
                 (replicate (nat COLUMNS) None # (take row g @ drop (Suc row) g))
                 (lines_cleared + 1)
          else clear_rows rows g lines_cleared)"

definition clear_lines :: "tetris \<Rightarrow> error + (tetris \<times> int)" where
  "clear_lines s =
     (case clear_rows [0..<nat ROWS] (grid s) 0 of
        Inl e \<Rightarrow> Inl e
      | Inr (g, n) \<Rightarrow> Inr (s\<lparr>grid := g\<rparr>, n))"

definition line_scores :: "int \<rightharpoonup> int" where
  "line_scores = [0 \<mapsto> 0, 1 \<mapsto> 100, 2 \<mapsto> 300, 3 \<mapsto> 500, 4 \<mapsto> 800]"

definition update_score :: "tetris \<Rightarrow> int \<Rightarrow> error + tetris" where
  "update_score s lines =
     (case line_scores lines of
        None \<Rightarrow> Inl KeyError
      | Some pts \<Rightarrow>
          (let s1 = s\<lparr>score := score s + pts * level s\<rparr>
           in if score s1 div 1000 > level s1
              then (let s2 = s1\<lparr>level := level s1 + 1\<rparr>
                    in Inr (s2\<lparr>fall_speed := max 100 (1000 - level s2 * 100)\<rparr>))
              else Inr s1))"

text \<open>
  \<^verbatim>\<open>lock_piece\<close>; \<open>k\<close> is the key that \<^verbatim>\<open>random.choice\<close> returns when the next
  piece is made.
\<close>

definition lock_piece :: "tetris \<Rightarrow> kind \<Rightarrow> error + tetris" where
  "lock_piece s k =
     (case lock_cells s (occupied_cells (current_shape (current_piece s))) of
        Inl e \<Rightarrow> Inl e
      | Inr (True, s') \<Rightarrow> Inr s'
      | Inr (False, s1) \<Rightarrow>
          (case clear_lines s1 of
             Inl e \<Rightarrow> Inl e
           | Inr (s2, lines_cleared) \<Rightarrow>
               (case update_score s2 lines_cleared of
                  Inl e \<Rightarrow> Inl e
                | Inr s3 \<Rightarrow>
                    (case new_piece k of
                       Inl e \<Rightarrow> Inl e
                     | Inr p \<Rightarrow> Inr (s3\<lparr>current_piece := next_piece s3, next_piece := p\<rparr>)))))"

definition move_piece_down :: "tetris \<Rightarrow> tetris" where
  "move_piece_down s =
     s\<lparr>current_piece := (current_piece s)\<lparr>piece_y := piece_y (current_piece s) + 1\<rparr>\<rparr>"

definition move_down :: "tetris \<Rightarrow> kind \<Rightarrow> error + tetris" where
  "move_down s k =
     (case valid_move s (current_piece s) 0 1 of
        Inl e \<Rightarrow> Inl e
      | Inr ok \<Rightarrow> if ok then Inr (move_piece_down s) else lock_piece s k)"

text \<open>
  The \<^verbatim>\<open>while\<close> loop of \<^verbatim>\<open>hard_drop\<close>. It may run forever (a piece with no
  occupied cell is valid everywhere), which is the value \<open>None\<close>.
\<close>

partial_function (option) drop_loop :: "tetris \<Rightarrow> (error + tetris) option" where
  "drop_loop s =
     (case valid_move s (current_piece s) 0 1 of
        Inl e \<Rightarrow> Some (Inl e)
      | Inr ok \<Rightarrow> if ok then drop_loop (move_piece_down s) else Some (Inr s))"

declare drop_loop.simps [code]

definition hard_drop :: "tetris \<Rightarrow> kind \<Rightarrow> (error + tetris) option" where
  "hard_drop s k =
     (case drop_loop s of
        None \<Rightarrow> None
      | Some (Inl e) \<Rightarrow> Some (Inl e)
      | Some (Inr s') \<Rightarrow> Some (lock_piece s' k))"

definition move_horizontal :: "tetris \<Rightarrow> int \<Rightarrow> error + tetris" where
  "move_horizontal s dx =
     (case valid_move s (current_piece s) dx 0 of
        Inl e \<Rightarrow> Inl e
      | Inr ok \<Rightarrow>
          if ok
          then Inr (s\<lparr>current_piece := (current_piece s)\<lparr>piece_x := piece_x (current_piece s) + dx\<rparr>\<rparr>)
          else Inr s)"

text \<open>\<^verbatim>\<open>Tetris.rotate\<close>: rotate, and go back to the saved index on a collision.\<close>

definition tetris_rotate :: "tetris \<Rightarrow> error + tetris" where
  "tetris_rotate s =
     (let original_rotation = rotation (current_piece s)
      in case tetromino_rotate (current_piece s) of
           Inl e \<Rightarrow> Inl e
         | Inr p \<Rightarrow>
             (case valid_move s p 0 0 of
                Inl e \<Rightarrow> Inl e
              | Inr ok \<Rightarrow>
                  if \<not> ok
                  then (case py_get (shapes p) original_rotation of
                          Inl e \<Rightarrow> Inl e
                        | Inr cs \<Rightarrow>
                            Inr (s\<lparr>current_piece :=
                                     p\<lparr>rotation := original_rotation, current_shape := cs\<rparr>\<rparr>))
                  else Inr (s\<lparr>current_piece := p\<rparr>)))"

section \<open>The event handling of the main loop\<close>

datatype key = K_LEFT | K_RIGHT | K_DOWN | K_UP | K_SPACE | K_OTHER

text \<open>
  The \<^verbatim>\<open>KEYDOWN\<close> branch of \<^verbatim>\<open>main\<close>. After game over any key makes a new
  game; otherwise the key selects the command. \<open>k1\<close> and \<open>k2\<close> are the keys that
  \<^verbatim>\<open>random.choice\<close> returns (a command draws at most one), \<open>ticks\<close> the clock.
\<close>

definition keydown :: "tetris \<Rightarrow> key \<Rightarrow> kind \<Rightarrow> kind \<Rightarrow> int \<Rightarrow> (error + tetris) option" where
  "keydown game k k1 k2 ticks =
     (if game_over game then Some (Tetris k1 k2 ticks)
      else (case k of
              K_LEFT \<Rightarrow> Some (move_horizontal game (- 1))
            | K_RIGHT \<Rightarrow> Some (move_horizontal game 1)
            | K_DOWN \<Rightarrow> Some (move_down game k1)
            | K_UP \<Rightarrow> Some (tetris_rotate game)
            | K_SPACE \<Rightarrow> hard_drop game k1
            | K_OTHER \<Rightarrow> Some (Inr game)))"

text \<open>The automatic fall of \<^verbatim>\<open>main\<close>, at the time \<open>current_time\<close>.\<close>

definition automatic_fall :: "tetris \<Rightarrow> int \<Rightarrow> kind \<Rightarrow> error + tetris" where
  "automatic_fall game current_time k1 =
     (if \<not> game_over game \<and> current_time - last_fall game > fall_speed game
      then (case move_down game k1 of
              Inl e \<Rightarrow> Inl e
            | Inr game' \<Rightarrow> Inr (game'\<lparr>last_fall := current_time\<rparr>))
      else Inr game)"

text \<open>
  A run of key presses from a state: each item is the key with the values drawn while
  it is handled.
\<close>

fun play :: "tetris \<Rightarrow> (key \<times> kind \<times> kind \<times> int) list \<Rightarrow> (error + tetris) option" where
  "play game [] = Some (Inr game)"
| "play game ((k, k1, k2, ticks) # evs) =
     (case keydown game k k1 k2 ticks of
        None \<Rightarrow> None
      | Some (Inl e) \<Rightarrow> Some (Inl e)
      | Some (Inr game') \<Rightarrow> play game' evs)"

section \<open>Well-formed grids and example states\<close>

text \<open>The board of the game: \<^verbatim>\<open>ROWS\<close> rows of \<^verbatim>\<open>COLUMNS\<close> cells.\<close>

definition wf_grid :: "cell list list \<Rightarrow> bool" where
  "wf_grid g = (length g = nat ROWS \<and> list_all (\<lambda>line. length line = nat COLUMNS) g)"

text \<open>
  The test that \<^verbatim>\<open>valid_move\<close> makes on one cell at the absolute position
  \<open>(x, y)\<close>, on a well-formed grid.
\<close>

definition cell_ok :: "cell list list \<Rightarrow> int \<Rightarrow> int \<Rightarrow> bool" where
  "cell_ok g x y = (0 \<le> x \<and> x < 10 \<and> y < 20 \<and> (0 \<le> y \<longrightarrow> g ! nat y ! nat x = None))"

text \<open>A row is complete when \<^verbatim>\<open>all(row)\<close> holds.\<close>

definition complete :: "cell list \<Rightarrow> bool" where
  "complete line = list_all truthy line"

text \<open>The T piece and the I piece as \<^verbatim>\<open>new_piece\<close> makes them, and a new game.\<close>

definition piece_T :: tetromino where
  "piece_T =
     \<lparr>piece_x = 3, piece_y = 0, shape = ShT, color = PURPLE, rotation = 0,
      shapes = [[[0, 1, 0], [1, 1, 1]], [[1, 0], [1, 1], [1, 0]],
                [[1, 1, 1], [0, 1, 0]], [[0, 1], [1, 1], [0, 1]]],
      current_shape = [[0, 1, 0], [1, 1, 1]]\<rparr>"

definition piece_I :: tetromino where
  "piece_I =
     \<lparr>piece_x = 3, piece_y = 0, shape = ShI, color = CYAN, rotation = 0,
      shapes = [[[1, 1, 1, 1]], [[1], [1], [1], [1]], [[1, 1, 1, 1]], [[1], [1], [1], [1]]],
      current_shape = [[1, 1, 1, 1]]\<rparr>"

definition new_game :: tetris where
  "new_game =
     \<lparr>grid = replicate 20 (replicate 10 None), current_piece = piece_T, next_piece = piece_I,
      score = 0, level = 1, fall_speed = 1000, last_fall = 0, game_over = False\<rparr>"

text \<open>
  A board whose rows 3 and 7 are complete, with one partly filled row, and the rest empty.
\<close>

definition two_lines_game :: tetris where
  "two_lines_game =
     new_game\<lparr>grid := (replicate 20 (replicate 10 None))
                 [3 := replicate 10 (Some RED),
                  5 := [Some BLUE, None, None, Some BLUE, None, None, None, None, None, Some BLUE],
                  7 := replicate 10 (Some GREEN)]\<rparr>"

text \<open>
  A board with two filled cells in row 5 under the I piece, and nothing below them.
\<close>

definition overhang_game :: tetris where
  "overhang_game =
     new_game\<lparr>grid := (replicate 20 (replicate 10 None))
                 [5 := [None, None, None, Some RED, Some RED, None, None, None, None, None]],
              current_piece := piece_I\<rparr>"

text \<open>The O piece, the game that starts with O pieces, and a board with two full columns.\<close>

definition piece_O :: tetromino where
  "piece_O =
     \<lparr>piece_x = 3, piece_y = 0, shape = ShO, color = YELLOW, rotation = 0,
      shapes = [[[1, 1], [1, 1]], [[1, 1], [1, 1]], [[1, 1], [1, 1]], [[1, 1], [1, 1]]],
      current_shape = [[1, 1], [1, 1]]\<rparr>"

definition O_game :: tetris where
  "O_game =
     \<lparr>grid = replicate 20 (replicate 10 None), current_piece = piece_O, next_piece = piece_O,
      score = 0, level = 1, fall_speed = 1000, last_fall = 0, game_over = False\<rparr>"

definition stuck_game :: tetris where
  "stuck_game =
     O_game\<lparr>grid := replicate 20
                 [None, None, None, Some YELLOW, Some YELLOW, None, None, None, None, None]\<rparr>"

section \<open>Rotation\<close>

lemma py_get_nat: "i < length xs \<Longrightarrow> py_get xs (int i) = Inr (xs ! i)"
  by (simp add: py_get_def py_index_def)

lemma collect_map_Inr: "collect (map (\<lambda>x. Inr (f x)) xs) = Inr (map f xs)"
  by (induction xs) simp_all

lemma collect_cong_Inr:
  "(\<And>x. x \<in> set xs \<Longrightarrow> g x = Inr (f x)) \<Longrightarrow> collect (map g xs) = Inr (map f xs)"
  by (induction xs) simp_all

lemma rotate_matrix_rect:
  assumes "m \<noteq> []" and "\<And>row. row \<in> set m \<Longrightarrow> length row = C"
  shows "rotate_matrix m =
           Inr (map (\<lambda>x. map (\<lambda>y. m ! y ! x) (rev [0..<length m])) [0..<C])"
proof -
  have len0: "length (m ! 0) = C"
    using assms by (simp add: nth_mem)
  have get0: "py_get m 0 = Inr (m ! 0)"
    using assms(1) py_get_nat [of 0 m] by simp
  have inner: "collect (map (\<lambda>y. case py_get m (int y) of Inl e \<Rightarrow> Inl e
                                  | Inr r \<Rightarrow> py_get r (int x)) (rev [0..<length m]))
               = Inr (map (\<lambda>y. m ! y ! x) (rev [0..<length m]))"
    if "x < C" for x
  proof (rule collect_cong_Inr)
    fix y assume "y \<in> set (rev [0..<length m])"
    then have y: "y < length m" by simp
    then have "length (m ! y) = C" using assms(2) by (simp add: nth_mem)
    with y that show "(case py_get m (int y) of Inl e \<Rightarrow> Inl e | Inr r \<Rightarrow> py_get r (int x))
                      = Inr (m ! y ! x)"
      by (simp add: py_get_nat)
  qed
  have "collect (map (\<lambda>x. collect (map (\<lambda>y. case py_get m (int y) of Inl e \<Rightarrow> Inl e
                                  | Inr r \<Rightarrow> py_get r (int x)) (rev [0..<length m]))) [0..<C])
        = Inr (map (\<lambda>x. map (\<lambda>y. m ! y ! x) (rev [0..<length m])) [0..<C])"
    by (rule collect_cong_Inr) (simp add: inner)
  then show ?thesis
    by (simp add: rotate_matrix_def get0 len0)
qed

text \<open>The example states are states of the program.\<close>

lemma new_piece_T: "new_piece ShT = Inr piece_T"
  by (simp add: new_piece_def Tetromino_def get_rotations_def rotate_matrix_def py_get_def
      py_index_def upt_conv_Cons numeral_3_eq_3 piece_T_def COLUMNS_def)

lemma new_piece_I: "new_piece ShI = Inr piece_I"
  by (simp add: new_piece_def Tetromino_def get_rotations_def rotate_matrix_def py_get_def
      py_index_def upt_conv_Cons numeral_3_eq_3 piece_I_def COLUMNS_def)

lemma Tetris_new_game: "Tetris ShT ShI 0 = Inr new_game"
  by (simp add: Tetris_def new_piece_T new_piece_I new_game_def ROWS_def COLUMNS_def)

lemma wf_grid_new_game: "wf_grid (grid new_game)"
  by (simp add: wf_grid_def new_game_def ROWS_def COLUMNS_def list_all_iff)

text \<open>
  C5. For each of the seven base shapes, four applications of the rotation give the base
  shape again, none of them fails, and the list of rotation states that the constructor
  computes is the base shape followed by the first three rotations; so rotating its last
  state gives its first.
\<close>

theorem rotation_closure:
  "\<exists>r1 r2 r3. rotate_matrix (SHAPES k) = Inr r1 \<and> rotate_matrix r1 = Inr r2
      \<and> rotate_matrix r2 = Inr r3 \<and> rotate_matrix r3 = Inr (SHAPES k)
      \<and> get_rotations (SHAPES k) = Inr [SHAPES k, r1, r2, r3]"
  by (cases k)
    (simp_all add: get_rotations_def rotate_matrix_def py_get_def py_index_def upt_conv_Cons
      numeral_3_eq_3)

text \<open>
  C6, as the claim states it, fails: for the base shape of T (2 rows, 3 columns) the
  element (0, 1) of the rotation is 0, and the element (C - 1 - 1, 0) = (1, 0) of the
  input, C = 3 being the number of input columns, is 1.
\<close>

theorem rotate_matrix_columns_counterexample:
  "rotate_matrix (SHAPES ShT) = Inr [[1, 0], [1, 1], [1, 0]]
   \<and> [[1, 0], [1, 1], [1, 0]] ! 0 ! 1 = (0 :: int)
   \<and> length (SHAPES ShT ! 0) = 3
   \<and> SHAPES ShT ! (length (SHAPES ShT ! 0) - 1 - 1) ! 0 = 1"
  by (simp add: rotate_matrix_def py_get_def py_index_def upt_conv_Cons)

text \<open>
  C6, amended. For a matrix of R rows (R at least 1) that all have C entries, the rotation
  does not fail; its result has C rows of R entries each, and its element (r, c) is the
  element (R - 1 - c, r) of the input, R being the number of input rows.
\<close>

theorem rotate_matrix_spec:
  assumes "m \<noteq> []" and "\<forall>row \<in> set m. length row = C"
  shows "\<exists>out. rotate_matrix m = Inr out \<and> length out = C
           \<and> (\<forall>r < C. length (out ! r) = length m
                 \<and> (\<forall>c < length m. out ! r ! c = m ! (length m - 1 - c) ! r))"
proof -
  let ?out = "map (\<lambda>x. map (\<lambda>y. m ! y ! x) (rev [0..<length m])) [0..<C]"
  have "rotate_matrix m = Inr ?out"
    using assms by (intro rotate_matrix_rect) auto
  moreover have "length ?out = C" by simp
  moreover have "length (?out ! r) = length m
      \<and> (\<forall>c < length m. ?out ! r ! c = m ! (length m - 1 - c) ! r)" if "r < C" for r
    using that by (simp add: rev_nth)
  ultimately show ?thesis by blast
qed

theorem rotate_matrix_spec_witness:
  "SHAPES ShT \<noteq> [] \<and> map length (SHAPES ShT) = [3, 3]
   \<and> (\<exists>out. rotate_matrix (SHAPES ShT) = Inr out \<and> length out = 3
         \<and> (\<forall>r < 3. length (out ! r) = length (SHAPES ShT)
               \<and> (\<forall>c < length (SHAPES ShT).
                     out ! r ! c = SHAPES ShT ! (length (SHAPES ShT) - 1 - c) ! r)))"
  using rotate_matrix_spec [of "SHAPES ShT" 3] by simp

section \<open>Scoring\<close>

text \<open>
  C2. For a number of lines n from 0 to 4, \<^verbatim>\<open>update_score\<close> does not fail and adds
  the entry n of the table 0, 100, 300, 500, 800 times the level to the score. The level
  then goes up by one exactly when the new score divided by 1000 is greater than the old
  level, and stays as it was otherwise (one comparison, so never more than one step). On
  a level-up the fall interval becomes max(100, 1000 - 100 * new level); otherwise it
  is unchanged. Nothing else of the state changes.
\<close>

theorem update_score_spec:
  assumes "n \<in> {0, 1, 2, 3, 4}"
  shows "\<exists>s'. update_score s n = Inr s'
           \<and> score s' = score s + [0, 100, 300, 500, 800] ! nat n * level s
           \<and> (level s' = level s + 1 \<longleftrightarrow> score s' div 1000 > level s)
           \<and> (level s' = level s \<longleftrightarrow> \<not> score s' div 1000 > level s)
           \<and> (score s' div 1000 > level s \<longrightarrow>
                 fall_speed s' = max 100 (1000 - level s' * 100))
           \<and> (\<not> score s' div 1000 > level s \<longrightarrow> fall_speed s' = fall_speed s)
           \<and> grid s' = grid s \<and> current_piece s' = current_piece s
           \<and> next_piece s' = next_piece s \<and> game_over s' = game_over s
           \<and> last_fall s' = last_fall s"
proof -
  from assms consider "n = 0" | "n = 1" | "n = 2" | "n = 3" | "n = 4" by blast
  then show ?thesis
    by cases (simp_all add: update_score_def line_scores_def Let_def)
qed

theorem update_score_spec_witness:
  "(1 :: int) \<in> {0, 1, 2, 3, 4}
   \<and> (\<exists>s'. update_score (new_game\<lparr>score := 950\<rparr>) 1 = Inr s' \<and> score s' = 1050 \<and> level s' = 1)"
proof -
  have n: "(1 :: int) \<in> {0, 1, 2, 3, 4}" by simp
  from update_score_spec [OF n, of "new_game\<lparr>score := 950\<rparr>"]
  obtain s' where s': "update_score (new_game\<lparr>score := 950\<rparr>) 1 = Inr s'"
      "score s' = score (new_game\<lparr>score := 950\<rparr>)
                   + [0, 100, 300, 500, 800] ! nat 1 * level (new_game\<lparr>score := 950\<rparr>)"
      "(level s' = level (new_game\<lparr>score := 950\<rparr>))
         = (\<not> score s' div 1000 > level (new_game\<lparr>score := 950\<rparr>))"
    by blast
  from s'(2) have sc: "score s' = 1050" by (simp add: new_game_def)
  with s'(3) have "level s' = 1" by (simp add: new_game_def)
  with s'(1) sc n show ?thesis by blast
qed

section \<open>Collision test\<close>

lemma set_row_cells:
  "set (row_cells r c vs) = {(r, c + int j) | j. j < length vs \<and> vs ! j \<noteq> 0}"
proof (induction vs arbitrary: c)
  case Nil
  then show ?case by simp
next
  case (Cons v vs)
  have "{(r, c + int j) | j. j < length (v # vs) \<and> (v # vs) ! j \<noteq> 0}
        = (if v \<noteq> 0 then {(r, c)} else {}) \<union> {(r, (c + 1) + int j) | j. j < length vs \<and> vs ! j \<noteq> 0}"
    (is "?L = ?R")
  proof (intro set_eqI iffI)
    fix z assume "z \<in> ?L"
    then obtain j where j: "z = (r, c + int j)" "j < length (v # vs)" "(v # vs) ! j \<noteq> 0" by blast
    show "z \<in> ?R"
    proof (cases j)
      case 0
      with j show ?thesis by simp
    next
      case (Suc j')
      with j have "z = (r, (c + 1) + int j') \<and> j' < length vs \<and> vs ! j' \<noteq> 0" by simp
      then show ?thesis by blast
    qed
  next
    fix z assume "z \<in> ?R"
    then consider "v \<noteq> 0" "z = (r, c)"
      | j where "z = (r, (c + 1) + int j)" "j < length vs" "vs ! j \<noteq> 0"
      by (auto split: if_splits)
    then show "z \<in> ?L"
    proof cases
      case 1
      then have "z = (r, c + int 0) \<and> 0 < length (v # vs) \<and> (v # vs) ! 0 \<noteq> 0" by simp
      then show ?thesis by blast
    next
      case 2
      then have "z = (r, c + int (Suc j)) \<and> Suc j < length (v # vs) \<and> (v # vs) ! Suc j \<noteq> 0" by simp
      then show ?thesis by blast
    qed
  qed
  then show ?case using Cons.IH [of "c + 1"] by simp
qed

lemma set_shape_cells:
  "set (shape_cells r m) =
     {(r + int i, int j) | i j. i < length m \<and> j < length (m ! i) \<and> m ! i ! j \<noteq> 0}"
proof (induction m arbitrary: r)
  case Nil
  then show ?case by simp
next
  case (Cons row rows)
  have "{(r + int i, int j) | i j. i < length (row # rows) \<and> j < length ((row # rows) ! i) \<and> (row # rows) ! i ! j \<noteq> 0}
        = {(r, 0 + int j) | j. j < length row \<and> row ! j \<noteq> 0}
          \<union> {((r + 1) + int i, int j) | i j. i < length rows \<and> j < length (rows ! i) \<and> rows ! i ! j \<noteq> 0}"
    (is "?L = ?A \<union> ?B")
  proof (intro set_eqI iffI)
    fix z assume "z \<in> ?L"
    then obtain i j where ij: "z = (r + int i, int j)" "i < length (row # rows)"
      "j < length ((row # rows) ! i)" "(row # rows) ! i ! j \<noteq> 0" by blast
    show "z \<in> ?A \<union> ?B"
    proof (cases i)
      case 0
      with ij have "z = (r, 0 + int j) \<and> j < length row \<and> row ! j \<noteq> 0" by simp
      then show ?thesis by blast
    next
      case (Suc i')
      with ij have "z = ((r + 1) + int i', int j) \<and> i' < length rows \<and> j < length (rows ! i') \<and> rows ! i' ! j \<noteq> 0"
        by simp
      then show ?thesis by blast
    qed
  next
    fix z assume "z \<in> ?A \<union> ?B"
    then consider j where "z = (r, 0 + int j)" "j < length row" "row ! j \<noteq> 0"
      | i j where "z = ((r + 1) + int i, int j)" "i < length rows" "j < length (rows ! i)" "rows ! i ! j \<noteq> 0"
      by blast
    then show "z \<in> ?L"
    proof cases
      case 1
      then have "z = (r + int 0, int j) \<and> 0 < length (row # rows) \<and> j < length ((row # rows) ! 0) \<and> (row # rows) ! 0 ! j \<noteq> 0"
        by simp
      then show ?thesis by blast
    next
      case 2
      then have "z = (r + int (Suc i), int j) \<and> Suc i < length (row # rows) \<and> j < length ((row # rows) ! Suc i) \<and> (row # rows) ! Suc i ! j \<noteq> 0"
        by simp
      then show ?thesis by blast
    qed
  qed
  then show ?case using Cons.IH [of "r + 1"] by (simp add: set_row_cells)
qed

lemma wf_grid_get:
  assumes "wf_grid g" "0 \<le> y" "y < 20" "0 \<le> x" "x < 10"
  shows "py_get g y = Inr (g ! nat y)" "py_get (g ! nat y) x = Inr (g ! nat y ! nat x)"
proof -
  from assms have ly: "nat y < length g" by (simp add: wf_grid_def ROWS_def)
  then have "length (g ! nat y) = 10"
    using assms(1) by (simp add: wf_grid_def COLUMNS_def list_all_length)
  with assms ly show "py_get g y = Inr (g ! nat y)" "py_get (g ! nat y) x = Inr (g ! nat y ! nat x)"
    by (simp_all add: py_get_def py_index_def wf_grid_def ROWS_def)
qed

lemma check_cells_wf:
  assumes "wf_grid g"
  shows "check_cells g px py cells = Inr (\<forall>(row, col) \<in> set cells. cell_ok g (px + col) (py + row))"
proof (induction cells)
  case Nil
  then show ?case by simp
next
  case (Cons a cells)
  obtain row col where a: "a = (row, col)" by (cases a)
  show ?case
  proof (cases "cell_ok g (px + col) (py + row)")
    case True
    then show ?thesis
      using Cons.IH wf_grid_get [OF assms, of "py + row" "px + col"]
      by (auto simp: a cell_ok_def COLUMNS_def ROWS_def truthy_def Let_def)
  next
    case False
    then show ?thesis
      using wf_grid_get [OF assms, of "py + row" "px + col"]
      by (auto simp: a cell_ok_def COLUMNS_def ROWS_def truthy_def Let_def)
  qed
qed

lemma ball_shape_cells:
  "(\<forall>(row, col) \<in> set (shape_cells r m). P row col) =
   (\<forall>i j. i < length m \<and> j < length (m ! i) \<and> m ! i ! j \<noteq> 0 \<longrightarrow> P (r + int i) (int j))"
  unfolding set_shape_cells by blast

lemma cell_ok_iff:
  "cell_ok g x y = (\<not> (x < 0 \<or> x \<ge> 10 \<or> y \<ge> 20 \<or> (y \<ge> 0 \<and> g ! nat y ! nat x \<noteq> None)))"
  unfolding cell_ok_def by (auto simp del: not_None_eq)

text \<open>
  C1. On a board of 20 rows of 10 cells, for every piece (whatever its matrix: every kind,
  every rotation state) and every offset, \<^verbatim>\<open>valid_move\<close> does not fail, and it
  returns false exactly when some non-zero entry (r, c) of the current shape has
  x = piece.x + dx + c < 0, or x \<ge> 10, or y = piece.y + dy + r \<ge> 20, or y \<ge> 0 with the grid
  cell (y, x) filled; so it returns true exactly when every occupied cell passes, and a
  cell with y < 0 is rejected only for its column.
\<close>

theorem valid_move_spec:
  assumes "wf_grid (grid s)"
  shows "valid_move s p dx dy =
           Inr (\<not> (\<exists>r c. r < length (current_shape p) \<and> c < length (current_shape p ! r)
                      \<and> current_shape p ! r ! c \<noteq> 0
                      \<and> (let x = piece_x p + dx + int c; y = piece_y p + dy + int r
                          in x < 0 \<or> x \<ge> 10 \<or> y \<ge> 20 \<or> (y \<ge> 0 \<and> grid s ! nat y ! nat x \<noteq> None))))"
proof -
  have "(\<forall>(row, col) \<in> set (occupied_cells (current_shape p)).
            cell_ok (grid s) (piece_x p + dx + col) (piece_y p + dy + row))
        = (\<not> (\<exists>r c. r < length (current_shape p) \<and> c < length (current_shape p ! r)
                      \<and> current_shape p ! r ! c \<noteq> 0
                      \<and> (let x = piece_x p + dx + int c; y = piece_y p + dy + int r
                          in x < 0 \<or> x \<ge> 10 \<or> y \<ge> 20 \<or> (y \<ge> 0 \<and> grid s ! nat y ! nat x \<noteq> None))))"
    unfolding occupied_cells_def ball_shape_cells cell_ok_iff Let_def
    by (simp del: not_None_eq) blast
  then show ?thesis
    by (simp add: valid_move_def check_cells_wf [OF assms])
qed

theorem valid_move_spec_witness:
  "wf_grid (grid new_game)
   \<and> valid_move new_game piece_T (- 4) 0 = Inr False
   \<and> (\<exists>r c. r < length (current_shape piece_T) \<and> c < length (current_shape piece_T ! r)
          \<and> current_shape piece_T ! r ! c \<noteq> 0
          \<and> (let x = piece_x piece_T + (- 4) + int c; y = piece_y piece_T + 0 + int r
              in x < 0 \<or> x \<ge> 10 \<or> y \<ge> 20 \<or> (y \<ge> 0 \<and> grid new_game ! nat y ! nat x \<noteq> None)))"
proof -
  have vm: "valid_move new_game piece_T (- 4) 0 = Inr False"
    by code_simp
  show ?thesis
    using valid_move_spec [OF wf_grid_new_game, of piece_T "- 4" 0] vm wf_grid_new_game
    by simp
qed

section \<open>Line clearing\<close>

lemma clear_rows_inv:
  "clear_rows [length A..<length A + length B] (A @ B) k =
     Inr (replicate (length (filter complete B)) (replicate (nat COLUMNS) None) @ A
            @ filter (\<lambda>line. \<not> complete line) B,
          k + int (length (filter complete B)))"
proof (induction B arbitrary: A k)
  case Nil
  then show ?case by simp
next
  case (Cons r B)
  have upt: "[length A..<length A + length (r # B)]
             = length A # [Suc (length A)..<Suc (length A) + length B]"
    using upt_conv_Cons [of "length A" "length A + length (r # B)"] by (simp del: upt_Suc)
  have get: "py_get (A @ r # B) (int (length A)) = Inr r"
    by (simp add: py_get_nat)
  show ?case
  proof (cases "complete r")
    case True
    have "clear_rows [length A..<length A + length (r # B)] (A @ r # B) k
          = clear_rows (length A # [Suc (length A)..<Suc (length A) + length B]) (A @ r # B) k"
      by (simp only: upt)
    also have "\<dots> = clear_rows [length (replicate (nat COLUMNS) None # A)
                                   ..<length (replicate (nat COLUMNS) None # A) + length B]
                          ((replicate (nat COLUMNS) None # A) @ B) (k + 1)"
      using True by (simp add: get complete_def del: upt_Suc)
    also have "\<dots> = Inr (replicate (length (filter complete B)) (replicate (nat COLUMNS) None)
                          @ (replicate (nat COLUMNS) None # A) @ filter (\<lambda>line. \<not> complete line) B,
                        (k + 1) + int (length (filter complete B)))"
      by (rule Cons.IH)
    finally show ?thesis
      using True by (simp add: replicate_app_Cons_same)
  next
    case False
    have "clear_rows [length A..<length A + length (r # B)] (A @ r # B) k
          = clear_rows (length A # [Suc (length A)..<Suc (length A) + length B]) (A @ r # B) k"
      by (simp only: upt)
    also have "\<dots> = clear_rows [length (A @ [r])..<length (A @ [r]) + length B] ((A @ [r]) @ B) k"
      using False by (simp add: get complete_def del: upt_Suc)
    also have "\<dots> = Inr (replicate (length (filter complete B)) (replicate (nat COLUMNS) None)
                          @ (A @ [r]) @ filter (\<lambda>line. \<not> complete line) B,
                        k + int (length (filter complete B)))"
      by (rule Cons.IH)
    finally show ?thesis
      using False by simp
  qed
qed

lemma clear_lines_wf:
  assumes "wf_grid (grid s)"
  shows "clear_lines s =
           Inr (s\<lparr>grid := replicate (length (filter complete (grid s))) (replicate (nat COLUMNS) None)
                            @ filter (\<lambda>line. \<not> complete line) (grid s)\<rparr>,
                int (length (filter complete (grid s))))"
proof -
  have len: "nat ROWS = 0 + length (grid s)"
    using assms by (simp add: wf_grid_def)
  show ?thesis
    unfolding clear_lines_def len
    using clear_rows_inv [of "[]" "grid s" 0] by simp
qed

lemma not_complete_empty_row: "\<not> complete (replicate (nat COLUMNS) None)"
  by (simp add: complete_def truthy_def COLUMNS_def list_all_iff)

text \<open>
  C3. On a board of 20 rows of 10 cells in which the complete rows are exactly those at the
  indices 3 and 7, \<^verbatim>\<open>clear_lines\<close> returns 2, and the new board is two empty rows
  followed by the rows 0-2, 4-6 and 8-19 of the old board in their old order.
\<close>

theorem clear_lines_rows_3_7:
  assumes "wf_grid (grid s)"
    and "filter (\<lambda>i. complete (grid s ! i)) [0..<20] = [3, 7]"
  shows "clear_lines s =
           Inr (s\<lparr>grid := replicate 2 (replicate 10 None) @ take 3 (grid s)
                             @ take 3 (drop 4 (grid s)) @ drop 8 (grid s)\<rparr>, 2)"
proof -
  have len: "length (grid s) = 20"
    using assms(1) by (simp add: wf_grid_def ROWS_def)
  have "set (filter (\<lambda>i. complete (grid s ! i)) [0..<20]) = {3, 7}"
    by (simp add: assms(2))
  then have full: "complete (grid s ! i) \<longleftrightarrow> i = 3 \<or> i = 7" if "i < 20" for i
    using that by auto
  define P1 where "P1 = take 3 (grid s)"
  define P2 where "P2 = take 3 (drop 4 (grid s))"
  define P3 where "P3 = drop 8 (grid s)"
  define r3 where "r3 = grid s ! 3"
  define r7 where "r7 = grid s ! 7"
  have "grid s = take 3 (grid s) @ grid s ! 3 # drop (Suc 3) (grid s)"
    using len by (intro id_take_nth_drop) simp
  moreover have "drop 4 (grid s) = take 3 (drop 4 (grid s)) @ drop 4 (grid s) ! 3
                   # drop (Suc 3) (drop 4 (grid s))"
    using len by (intro id_take_nth_drop) simp
  ultimately have dec: "grid s = P1 @ r3 # P2 @ r7 # P3"
    using len by (simp add: P1_def P2_def P3_def r3_def r7_def)
  have n1: "\<not> complete x" if "x \<in> set P1" for x
  proof -
    from that obtain i where "i < 3" "x = grid s ! i"
      using len by (auto simp: P1_def in_set_conv_nth)
    then show ?thesis using full [of i] by simp
  qed
  have n2: "\<not> complete x" if "x \<in> set P2" for x
  proof -
    from that obtain i where "i < 3" "x = grid s ! (4 + i)"
      using len by (auto simp: P2_def in_set_conv_nth)
    then show ?thesis using full [of "4 + i"] by simp
  qed
  have n3: "\<not> complete x" if "x \<in> set P3" for x
  proof -
    from that obtain i where "i < 12" "x = grid s ! (8 + i)"
      using len by (auto simp: P3_def in_set_conv_nth)
    then show ?thesis using full [of "8 + i"] by simp
  qed
  have c3: "complete r3" and c7: "complete r7"
    using full [of 3] full [of 7] by (simp_all add: r3_def r7_def)
  have f1: "filter complete (grid s) = [r3, r7]"
    by (subst dec) (simp add: n1 n2 n3 c3 c7)
  have f2: "filter (\<lambda>line. \<not> complete line) (grid s) = P1 @ P2 @ P3"
    by (subst dec) (simp add: n1 n2 n3 c3 c7)
  show ?thesis
    unfolding clear_lines_wf [OF assms(1)] f1 f2
    by (simp add: P1_def P2_def P3_def COLUMNS_def numeral_2_eq_2)
qed

theorem clear_lines_rows_3_7_witness:
  "wf_grid (grid two_lines_game)
   \<and> filter (\<lambda>i. complete (grid two_lines_game ! i)) [0..<20] = [3, 7]
   \<and> clear_lines two_lines_game =
         Inr (two_lines_game\<lparr>grid := replicate 2 (replicate 10 None)
                @ take 3 (grid two_lines_game) @ take 3 (drop 4 (grid two_lines_game))
                @ drop 8 (grid two_lines_game)\<rparr>, 2)"
proof -
  have h1: "wf_grid (grid two_lines_game)" by code_simp
  have h2: "filter (\<lambda>i. complete (grid two_lines_game ! i)) [0..<20] = [3, 7]" by code_simp
  from clear_lines_rows_3_7 [OF h1 h2] h1 h2 show ?thesis by blast
qed

text \<open>
  C10. On a board of 20 rows of 10 cells \<^verbatim>\<open>clear_lines\<close> does not fail; the board
  it leaves has 20 rows of 10 cells again and no complete row, and a second call returns 0
  and leaves that board unchanged.
\<close>

theorem clear_lines_twice:
  assumes "wf_grid (grid s)"
  shows "\<exists>s1 n. clear_lines s = Inr (s1, n) \<and> wf_grid (grid s1)
           \<and> (\<forall>line \<in> set (grid s1). \<not> complete line)
           \<and> clear_lines s1 = Inr (s1, 0)"
proof -
  define g1 where "g1 = replicate (length (filter complete (grid s))) (replicate (nat COLUMNS) None)
                        @ filter (\<lambda>line. \<not> complete line) (grid s)"
  define s1 where "s1 = s\<lparr>grid := g1\<rparr>"
  have first: "clear_lines s = Inr (s1, int (length (filter complete (grid s))))"
    by (simp add: clear_lines_wf [OF assms] s1_def g1_def)
  have "length g1 = length (grid s)"
    using sum_length_filter_compl [of complete "grid s"] by (simp add: g1_def)
  moreover have "list_all (\<lambda>line. length line = nat COLUMNS) g1"
    using assms by (auto simp: g1_def wf_grid_def list_all_iff)
  ultimately have wf1: "wf_grid (grid s1)"
    using assms by (simp add: wf_grid_def s1_def)
  have none: "\<forall>line \<in> set (grid s1). \<not> complete line"
    using not_complete_empty_row by (auto simp: s1_def g1_def)
  then have "filter complete (grid s1) = []"
    and "filter (\<lambda>line. \<not> complete line) (grid s1) = grid s1"
    by (simp_all add: filter_id_conv)
  then have "clear_lines s1 = Inr (s1, 0)"
    by (simp add: clear_lines_wf [OF wf1])
  with first wf1 none show ?thesis by blast
qed

theorem clear_lines_twice_witness:
  "wf_grid (grid two_lines_game)
   \<and> (\<exists>s1 n. clear_lines two_lines_game = Inr (s1, n) \<and> wf_grid (grid s1)
          \<and> (\<forall>line \<in> set (grid s1). \<not> complete line)
          \<and> clear_lines s1 = Inr (s1, 0))"
proof -
  have h1: "wf_grid (grid two_lines_game)" by code_simp
  from clear_lines_twice [OF h1] h1 show ?thesis by blast
qed

section \<open>Locking\<close>

lemma fst_row_cells: "z \<in> set (row_cells r c vs) \<Longrightarrow> fst z = r"
  by (auto simp: set_row_cells)

lemma fst_shape_cells: "z \<in> set (shape_cells r m) \<Longrightarrow> r \<le> fst z"
  by (auto simp: set_shape_cells)

lemma sorted_row_cells: "sorted (map fst (row_cells r c vs))"
  by (induction vs arbitrary: c) (auto simp: sorted_append dest: fst_row_cells)

lemma sorted_shape_cells: "sorted (map fst (shape_cells r m))"
proof (induction m arbitrary: r)
  case Nil
  then show ?case by simp
next
  case (Cons row rows)
  have "fst x \<le> fst y"
    if "x \<in> set (row_cells r 0 row)" "y \<in> set (shape_cells (r + 1) rows)" for x y
    using fst_row_cells [OF that(1)] fst_shape_cells [OF that(2)] by simp
  then show ?case
    using Cons.IH [of "r + 1"] by (simp add: sorted_append sorted_row_cells)
qed

lemma lock_cells_above:
  assumes "(r, c) \<in> set (occupied_cells m)" and "piece_y (current_piece s) + r < 0"
  shows "lock_cells s (occupied_cells m) = Inr (True, s\<lparr>game_over := True\<rparr>)"
proof (cases "occupied_cells m")
  case Nil
  with assms(1) show ?thesis by simp
next
  case (Cons z rest)
  obtain a b where z: "z = (a, b)" by (cases z)
  have "sorted (map fst (z # rest))"
    using sorted_shape_cells [of 0 m] by (simp add: occupied_cells_def Cons [symmetric])
  moreover have "(r, c) \<in> set (z # rest)"
    using assms(1) by (simp add: Cons)
  ultimately have "a \<le> r"
    by (auto simp: z)
  with assms(2) have "piece_y (current_piece s) + a < 0" by simp
  then show ?thesis
    by (simp add: Cons z)
qed

text \<open>
  C4. Whenever some occupied cell of the current piece is above the grid (its absolute
  row is negative), \<^verbatim>\<open>lock_piece\<close> does not fail and returns the state it was given
  with the game-over flag set: the grid (any grid) is unchanged, and so are the pieces,
  the score and the level. The loops visit the rows of the piece from the top, so the
  first occupied cell they meet is above the grid already and nothing is written before
  the return.
\<close>

theorem lock_piece_above_grid:
  assumes "\<exists>r c. r < length (current_shape (current_piece s))
             \<and> c < length (current_shape (current_piece s) ! r)
             \<and> current_shape (current_piece s) ! r ! c \<noteq> 0
             \<and> piece_y (current_piece s) + int r < 0"
  shows "lock_piece s k = Inr (s\<lparr>game_over := True\<rparr>)"
proof -
  from assms obtain r c where rc: "r < length (current_shape (current_piece s))"
      "c < length (current_shape (current_piece s) ! r)"
      "current_shape (current_piece s) ! r ! c \<noteq> 0"
      "piece_y (current_piece s) + int r < 0"
    by blast
  then have "(0 + int r, int c) \<in> set (shape_cells 0 (current_shape (current_piece s)))"
    unfolding set_shape_cells by blast
  then have "(int r, int c) \<in> set (occupied_cells (current_shape (current_piece s)))"
    by (simp add: occupied_cells_def)
  from lock_cells_above [OF this rc(4)] show ?thesis
    by (simp add: lock_piece_def)
qed

theorem lock_piece_above_grid_witness:
  "(\<exists>r c. r < length (current_shape (current_piece (new_game\<lparr>current_piece := piece_T\<lparr>piece_y := - 1\<rparr>\<rparr>)))
      \<and> c < length (current_shape (current_piece (new_game\<lparr>current_piece := piece_T\<lparr>piece_y := - 1\<rparr>\<rparr>)) ! r)
      \<and> current_shape (current_piece (new_game\<lparr>current_piece := piece_T\<lparr>piece_y := - 1\<rparr>\<rparr>)) ! r ! c \<noteq> 0
      \<and> piece_y (current_piece (new_game\<lparr>current_piece := piece_T\<lparr>piece_y := - 1\<rparr>\<rparr>)) + int r < 0)
   \<and> lock_piece (new_game\<lparr>current_piece := piece_T\<lparr>piece_y := - 1\<rparr>\<rparr>) ShO
       = Inr (new_game\<lparr>current_piece := piece_T\<lparr>piece_y := - 1\<rparr>, game_over := True\<rparr>)"
proof -
  have h: "\<exists>r c. r < length (current_shape (current_piece (new_game\<lparr>current_piece := piece_T\<lparr>piece_y := - 1\<rparr>\<rparr>)))
      \<and> c < length (current_shape (current_piece (new_game\<lparr>current_piece := piece_T\<lparr>piece_y := - 1\<rparr>\<rparr>)) ! r)
      \<and> current_shape (current_piece (new_game\<lparr>current_piece := piece_T\<lparr>piece_y := - 1\<rparr>\<rparr>)) ! r ! c \<noteq> 0
      \<and> piece_y (current_piece (new_game\<lparr>current_piece := piece_T\<lparr>piece_y := - 1\<rparr>\<rparr>)) + int r < 0"
    by (intro exI [of _ 0] exI [of _ 1]) (simp add: piece_T_def)
  from lock_piece_above_grid [OF h, of ShO] h show ?thesis by simp
qed

section \<open>Hard drop\<close>

lemma valid_move_wf:
  assumes "wf_grid (grid s)"
  shows "valid_move s p dx dy =
           Inr (\<forall>(row, col) \<in> set (occupied_cells (current_shape p)).
                  cell_ok (grid s) (piece_x p + dx + col) (piece_y p + dy + row))"
  by (simp add: valid_move_def check_cells_wf [OF assms])

lemma valid_move_down: "valid_move s p 0 1 = valid_move s (p\<lparr>piece_y := piece_y p + 1\<rparr>) 0 0"
  by (simp add: valid_move_def)

lemma valid_move_grid: "grid s' = grid s \<Longrightarrow> valid_move s' p dx dy = valid_move s p dx dy"
  by (simp add: valid_move_def)

lemma drop_loop_spec:
  assumes "wf_grid (grid s)" and "occupied_cells (current_shape (current_piece s)) \<noteq> []"
  shows "\<exists>y'. piece_y (current_piece s) \<le> y'
           \<and> drop_loop s = Some (Inr (s\<lparr>current_piece := (current_piece s)\<lparr>piece_y := y'\<rparr>\<rparr>))
           \<and> (\<forall>y. piece_y (current_piece s) < y \<and> y \<le> y' \<longrightarrow>
                  valid_move s ((current_piece s)\<lparr>piece_y := y\<rparr>) 0 0 = Inr True)
           \<and> valid_move s ((current_piece s)\<lparr>piece_y := y' + 1\<rparr>) 0 0 = Inr False"
  using assms
proof (induction "nat (20 - piece_y (current_piece s))" arbitrary: s rule: less_induct)
  case less
  let ?p = "current_piece s"
  obtain b where b: "valid_move s ?p 0 1 = Inr b"
    using valid_move_wf [OF less.prems(1)] by blast
  show ?case
  proof (cases b)
    case False
    have "drop_loop s = Some (Inr s)"
      by (subst drop_loop.simps) (simp add: b False)
    moreover have "valid_move s (?p\<lparr>piece_y := piece_y ?p + 1\<rparr>) 0 0 = Inr False"
      using b False by (simp add: valid_move_down)
    ultimately show ?thesis
      by (intro exI [of _ "piece_y ?p"]) auto
  next
    case True
    let ?s' = "move_piece_down s"
    have p': "current_piece ?s' = ?p\<lparr>piece_y := piece_y ?p + 1\<rparr>" and g': "grid ?s' = grid s"
      by (simp_all add: move_piece_down_def)
    from less.prems(2) obtain r c where rc: "(r, c) \<in> set (occupied_cells (current_shape ?p))"
      by (cases "occupied_cells (current_shape ?p)") auto
    then have "0 \<le> r"
      using fst_shape_cells [of "(r, c)" 0 "current_shape ?p"] by (simp add: occupied_cells_def)
    moreover have "cell_ok (grid s) (piece_x ?p + 0 + c) (piece_y ?p + 1 + r)"
      using b True rc unfolding valid_move_wf [OF less.prems(1)] by auto
    ultimately have low: "piece_y ?p < 19"
      by (simp add: cell_ok_def)
    then have "nat (20 - piece_y (current_piece ?s')) < nat (20 - piece_y ?p)"
      by (simp add: p')
    moreover have "wf_grid (grid ?s')"
      using less.prems(1) by (simp add: g')
    moreover have "occupied_cells (current_shape (current_piece ?s')) \<noteq> []"
      using less.prems(2) by (simp add: p')
    ultimately obtain y' where y': "piece_y (current_piece ?s') \<le> y'"
      "drop_loop ?s' = Some (Inr (?s'\<lparr>current_piece := (current_piece ?s')\<lparr>piece_y := y'\<rparr>\<rparr>))"
      "\<forall>y. piece_y (current_piece ?s') < y \<and> y \<le> y' \<longrightarrow>
           valid_move ?s' ((current_piece ?s')\<lparr>piece_y := y\<rparr>) 0 0 = Inr True"
      "valid_move ?s' ((current_piece ?s')\<lparr>piece_y := y' + 1\<rparr>) 0 0 = Inr False"
      using less.hyps [of ?s'] by blast
    have upd: "(current_piece ?s')\<lparr>piece_y := y\<rparr> = ?p\<lparr>piece_y := y\<rparr>" for y
      by (simp add: p')
    have st: "?s'\<lparr>current_piece := q\<rparr> = s\<lparr>current_piece := q\<rparr>" for q
      by (simp add: move_piece_down_def)
    have "drop_loop s = drop_loop ?s'"
      by (subst drop_loop.simps) (simp add: b True)
    then have 1: "drop_loop s = Some (Inr (s\<lparr>current_piece := ?p\<lparr>piece_y := y'\<rparr>\<rparr>))"
      using y'(2) by (simp add: upd st)
    have 2: "piece_y ?p \<le> y'"
      using y'(1) by (simp add: p')
    have 3: "valid_move s (?p\<lparr>piece_y := y\<rparr>) 0 0 = Inr True" if "piece_y ?p < y" "y \<le> y'" for y
    proof (cases "y = piece_y ?p + 1")
      case True
      then show ?thesis using b \<open>b\<close> by (simp add: valid_move_down)
    next
      case False
      with that have "piece_y (current_piece ?s') < y \<and> y \<le> y'" by (simp add: p')
      with y'(3) have "valid_move ?s' ((current_piece ?s')\<lparr>piece_y := y\<rparr>) 0 0 = Inr True"
        by blast
      then show ?thesis by (simp add: upd valid_move_grid [OF g'])
    qed
    have 4: "valid_move s (?p\<lparr>piece_y := y' + 1\<rparr>) 0 0 = Inr False"
      using y'(4) by (simp add: upd valid_move_grid [OF g'])
    from 1 2 3 4 show ?thesis by blast
  qed
qed

text \<open>
  C7, amended. On a board of 20 rows of 10 cells, when the current piece has an occupied
  cell and its placement is valid, \<^verbatim>\<open>hard_drop\<close> terminates and is one call of
  \<^verbatim>\<open>lock_piece\<close> on the state in which only the row of the piece has changed (so no
  score is given for the distance). The row y' at that moment is not above the starting
  row, every placement from the starting row down to y' is valid, and the placement at
  y' + 1 is not: y' is the first row, going down from the start, from which the piece
  cannot move one row further.
\<close>

theorem hard_drop_spec:
  assumes "wf_grid (grid s)"
    and "occupied_cells (current_shape (current_piece s)) \<noteq> []"
    and "valid_move s (current_piece s) 0 0 = Inr True"
  shows "\<exists>y'. piece_y (current_piece s) \<le> y'
           \<and> hard_drop s k = Some (lock_piece (s\<lparr>current_piece := (current_piece s)\<lparr>piece_y := y'\<rparr>\<rparr>) k)
           \<and> (\<forall>y. piece_y (current_piece s) \<le> y \<and> y \<le> y' \<longrightarrow>
                  valid_move s ((current_piece s)\<lparr>piece_y := y\<rparr>) 0 0 = Inr True)
           \<and> valid_move s ((current_piece s)\<lparr>piece_y := y' + 1\<rparr>) 0 0 = Inr False"
proof -
  let ?p = "current_piece s"
  from drop_loop_spec [OF assms(1,2)] obtain y' where y': "piece_y ?p \<le> y'"
      "drop_loop s = Some (Inr (s\<lparr>current_piece := ?p\<lparr>piece_y := y'\<rparr>\<rparr>))"
      "\<forall>y. piece_y ?p < y \<and> y \<le> y' \<longrightarrow> valid_move s (?p\<lparr>piece_y := y\<rparr>) 0 0 = Inr True"
      "valid_move s (?p\<lparr>piece_y := y' + 1\<rparr>) 0 0 = Inr False"
    by blast
  have "hard_drop s k = Some (lock_piece (s\<lparr>current_piece := ?p\<lparr>piece_y := y'\<rparr>\<rparr>) k)"
    by (simp add: hard_drop_def y'(2))
  moreover have "valid_move s (?p\<lparr>piece_y := y\<rparr>) 0 0 = Inr True"
    if "piece_y ?p \<le> y" "y \<le> y'" for y
  proof (cases "y = piece_y ?p")
    case True
    then show ?thesis using assms(3) by simp
  next
    case False
    with that y'(3) show ?thesis by simp
  qed
  ultimately show ?thesis using y'(1,4) by blast
qed

theorem hard_drop_spec_witness:
  "wf_grid (grid new_game)
   \<and> occupied_cells (current_shape (current_piece new_game)) \<noteq> []
   \<and> valid_move new_game (current_piece new_game) 0 0 = Inr True
   \<and> (\<exists>y'. piece_y (current_piece new_game) \<le> y'
          \<and> hard_drop new_game ShO =
               Some (lock_piece (new_game\<lparr>current_piece := (current_piece new_game)\<lparr>piece_y := y'\<rparr>\<rparr>) ShO)
          \<and> (\<forall>y. piece_y (current_piece new_game) \<le> y \<and> y \<le> y' \<longrightarrow>
                 valid_move new_game ((current_piece new_game)\<lparr>piece_y := y\<rparr>) 0 0 = Inr True)
          \<and> valid_move new_game ((current_piece new_game)\<lparr>piece_y := y' + 1\<rparr>) 0 0 = Inr False)"
proof -
  have h2: "occupied_cells (current_shape (current_piece new_game)) \<noteq> []" by code_simp
  have h3: "valid_move new_game (current_piece new_game) 0 0 = Inr True" by code_simp
  from hard_drop_spec [OF wf_grid_new_game h2 h3, of ShO] wf_grid_new_game h2 h3
  show ?thesis by blast
qed

text \<open>
  C7, as the claim states it, fails. The I piece lies at row 0 over two filled cells of
  row 5; its placement is valid. The loop stops at row 4 and the piece is locked there,
  although the placement at row 19, under the filled cells, is valid too: the row at the
  moment of locking is not the largest row with a valid placement.
\<close>

theorem hard_drop_largest_row_counterexample:
  "wf_grid (grid overhang_game)
   \<and> current_piece overhang_game = piece_I
   \<and> valid_move overhang_game piece_I 0 0 = Inr True
   \<and> drop_loop overhang_game = Some (Inr (overhang_game\<lparr>current_piece := piece_I\<lparr>piece_y := 4\<rparr>\<rparr>))
   \<and> hard_drop overhang_game ShT =
        Some (lock_piece (overhang_game\<lparr>current_piece := piece_I\<lparr>piece_y := 4\<rparr>\<rparr>) ShT)
   \<and> valid_move overhang_game (piece_I\<lparr>piece_y := 19\<rparr>) 0 0 = Inr True"
proof -
  have "wf_grid (grid overhang_game)" by code_simp
  moreover have "current_piece overhang_game = piece_I" by (simp add: overhang_game_def)
  moreover have "valid_move overhang_game piece_I 0 0 = Inr True" by code_simp
  moreover have "drop_loop overhang_game
                 = Some (Inr (overhang_game\<lparr>current_piece := piece_I\<lparr>piece_y := 4\<rparr>\<rparr>))"
    by code_simp
  moreover have "hard_drop overhang_game ShT
                 = Some (lock_piece (overhang_game\<lparr>current_piece := piece_I\<lparr>piece_y := 4\<rparr>\<rparr>) ShT)"
    by code_simp
  moreover have "valid_move overhang_game (piece_I\<lparr>piece_y := 19\<rparr>) 0 0 = Inr True" by code_simp
  ultimately show ?thesis by blast
qed

section \<open>The game-over flag\<close>

lemma new_piece_O: "new_piece ShO = Inr piece_O"
  by (simp add: new_piece_def Tetromino_def get_rotations_def rotate_matrix_def py_get_def
      py_index_def upt_conv_Cons numeral_3_eq_3 piece_O_def COLUMNS_def)

lemma new_piece_total: "\<exists>p. new_piece k = Inr p \<and> piece_x p = 3 \<and> piece_y p = 0"
  by (cases k)
    (simp_all add: new_piece_def Tetromino_def get_rotations_def rotate_matrix_def py_get_def
      py_index_def upt_conv_Cons numeral_3_eq_3 COLUMNS_def)

text \<open>
  C8. Ten hard drops of O pieces in a new game fill the columns 3 and 4 up to the top
  row. None of them sets the game-over flag, and the piece that is then made current
  lies at (3, 0) on filled cells: its cell (0, 0) is occupied and the grid cell (0, 3)
  is filled, so \<^verbatim>\<open>valid_move\<close> rejects the place where it stands.
\<close>

theorem spawn_on_filled_cells:
  "Tetris ShO ShO 0 = Inr O_game
   \<and> play O_game (replicate 10 (K_SPACE, ShO, ShO, 0)) = Some (Inr stuck_game)
   \<and> \<not> game_over stuck_game
   \<and> piece_x (current_piece stuck_game) = 3 \<and> piece_y (current_piece stuck_game) = 0
   \<and> current_shape (current_piece stuck_game) ! 0 ! 0 = 1
   \<and> grid stuck_game ! 0 ! 3 = Some YELLOW
   \<and> valid_move stuck_game (current_piece stuck_game) 0 0 = Inr False"
proof -
  have "Tetris ShO ShO 0 = Inr O_game"
    by (simp add: Tetris_def new_piece_O O_game_def ROWS_def COLUMNS_def)
  moreover have "play O_game (replicate 10 (K_SPACE, ShO, ShO, 0)) = Some (Inr stuck_game)"
    by code_simp
  moreover have "\<not> game_over stuck_game"
    by (simp add: stuck_game_def O_game_def)
  moreover have "piece_x (current_piece stuck_game) = 3 \<and> piece_y (current_piece stuck_game) = 0
      \<and> current_shape (current_piece stuck_game) ! 0 ! 0 = 1"
    by (simp add: stuck_game_def O_game_def piece_O_def)
  moreover have "grid stuck_game ! 0 ! 3 = Some YELLOW" by code_simp
  moreover have "valid_move stuck_game (current_piece stuck_game) 0 0 = Inr False" by code_simp
  ultimately show ?thesis by blast
qed

text \<open>
  C9, as the claim states it, fails: the commands do not look at the game-over flag. In
  a state with the flag set, \<^verbatim>\<open>move_horizontal(1)\<close> moves the piece from column 3
  to column 4.
\<close>

theorem move_horizontal_game_over_counterexample:
  "game_over (new_game\<lparr>game_over := True\<rparr>)
   \<and> piece_x (current_piece (new_game\<lparr>game_over := True\<rparr>)) = 3
   \<and> move_horizontal (new_game\<lparr>game_over := True\<rparr>) 1
       = Inr (new_game\<lparr>game_over := True, current_piece := piece_T\<lparr>piece_x := 4\<rparr>\<rparr>)"
proof -
  have "move_horizontal (new_game\<lparr>game_over := True\<rparr>) 1
        = Inr (new_game\<lparr>game_over := True, current_piece := piece_T\<lparr>piece_x := 4\<rparr>\<rparr>)"
    by code_simp
  then show ?thesis by (simp add: new_game_def piece_T_def)
qed

text \<open>
  C9, amended. With the game-over flag set the main loop calls none of the commands: a
  key press, whatever the key, replaces the game by a newly constructed one (which does
  not fail: empty board, score 0, level 1, fall interval 1000, flag cleared), and the
  automatic fall leaves the state as it is.
\<close>

theorem keydown_game_over:
  assumes "game_over s"
  shows "keydown s key k1 k2 ticks = Some (Tetris k1 k2 ticks)
         \<and> (\<exists>s'. Tetris k1 k2 ticks = Inr s' \<and> \<not> game_over s' \<and> score s' = 0 \<and> level s' = 1
                \<and> fall_speed s' = 1000 \<and> grid s' = replicate 20 (replicate 10 None))
         \<and> automatic_fall s current_time k1 = Inr s"
proof -
  obtain p1 p2 where "new_piece k1 = Inr p1" "new_piece k2 = Inr p2"
    using new_piece_total by blast
  then have "\<exists>s'. Tetris k1 k2 ticks = Inr s' \<and> \<not> game_over s' \<and> score s' = 0 \<and> level s' = 1
                \<and> fall_speed s' = 1000 \<and> grid s' = replicate 20 (replicate 10 None)"
    by (simp add: Tetris_def ROWS_def COLUMNS_def)
  with assms show ?thesis
    by (simp add: keydown_def automatic_fall_def)
qed

theorem keydown_game_over_witness:
  "game_over (new_game\<lparr>game_over := True\<rparr>)
   \<and> keydown (new_game\<lparr>game_over := True\<rparr>) K_LEFT ShT ShI 0 = Some (Inr new_game)
   \<and> automatic_fall (new_game\<lparr>game_over := True\<rparr>) 5000 ShT = Inr (new_game\<lparr>game_over := True\<rparr>)"
proof -
  have h: "game_over (new_game\<lparr>game_over := True\<rparr>)" by simp
  from keydown_game_over [OF h, of K_LEFT ShT ShI 0 5000] h show ?thesis
    by (simp add: Tetris_new_game)
qed

end
